theory Spec2Isabelle
  imports Main "HOL-Library.Sublist"
begin

section \<open>Strings, characters and the regular expressions of lucparser.py\<close>

text \<open>
  A Python \<open>str\<close> is modelled as a \<open>string\<close>: the list of its code points, restricted
  to the code points 0..255 that \<open>char\<close> offers.  \<open>bslash\<close> is the backslash and
  \<open>dquote\<close> the double quotation mark.
\<close>

definition bslash :: char where
  "bslash = CHR 0x5C"

definition dquote :: char where
  "dquote = CHR 0x22"

definition newline :: char where
  "newline = CHR 0x0A"

text \<open>
  The characters matched by the class \<open>\s\<close> of \<open>re\<close> on \<open>str\<close> patterns, which are
  also the separators of \<open>str.split()\<close>: TAB, LF, VT, FF, CR, FS, GS, RS, US, SPACE, NEL
  and the no-break space.
\<close>

definition isspace :: "char \<Rightarrow> bool" where
  "isspace c = (c \<in> set [CHR 0x09, CHR 0x0A, CHR 0x0B, CHR 0x0C, CHR 0x0D, CHR 0x1C,
                             CHR 0x1D, CHR 0x1E, CHR 0x1F, CHR 0x20, CHR 0x85, CHR 0xA0])"

text \<open>
  \<open>str.replace(old, new)\<close>, and \<open>re.sub\<close> for a pattern that is a literal text: the
  occurrences are found from left to right and do not overlap.  For the empty \<open>old\<close>
  Python inserts \<open>new\<close> before every character and at the end.
\<close>

fun str_replace :: "string \<Rightarrow> string \<Rightarrow> string \<Rightarrow> string" where
  "str_replace old new [] = (if old = [] then new else [])"
| "str_replace old new (c # cs) =
     (if old = [] then new @ c # str_replace old new cs
      else if prefix old (c # cs)
        then new @ str_replace old new (drop (length old) (c # cs))
      else c # str_replace old new cs)"

text \<open>
  The patterns that the module hands to \<open>re.sub\<close>:
  a literal text (such as \<open>\\\\\<close>, \<open>\\"\<close>, \<open>:\<close>, \<open>\(\<close>, \<open>\)\<close> or a sentinel), the class
  \<open>\s\<close>, and \<open>(?<!^):\<close>, a colon that is not at the start of the string.
\<close>

datatype pattern = PLit string | PSpace | PColonNotStart

text \<open>
  A replacement given to \<open>re.sub\<close> as a string is a template: \<open>re\<close> turns a doubled
  backslash into one backslash and keeps a backslash that stands before a character that
  is neither a letter nor a digit together with that character.  These are the escapes
  that occur in the tables of the module.
\<close>

fun expand_template :: "string \<Rightarrow> string" where
  "expand_template (a # b # cs) =
     (if a = bslash then (if b = bslash then bslash # expand_template cs
                          else a # b # expand_template cs)
      else a # expand_template (b # cs))"
| "expand_template cs = cs"

fun sub_colon_not_start :: "string \<Rightarrow> bool \<Rightarrow> string \<Rightarrow> string" where
  "sub_colon_not_start new start [] = []"
| "sub_colon_not_start new start (c # cs) =
     (if c = CHR '':'' \<and> \<not> start then new @ sub_colon_not_start new False cs
      else c # sub_colon_not_start new False cs)"

fun re_sub :: "pattern \<Rightarrow> string \<Rightarrow> string \<Rightarrow> string" where
  "re_sub (PLit old) repl s = str_replace old (expand_template repl) s"
| "re_sub PSpace repl s =
     concat (map (\<lambda>c. if isspace c then expand_template repl else [c]) s)"
| "re_sub PColonNotStart repl s = sub_colon_not_start (expand_template repl) True s"

section \<open>The substitution tables\<close>

definition METAESC :: string where "METAESC = ''_&_METAESC_&_''"
definition QUOT :: string where "QUOT = ''_&_QUOT_&_''"
definition SPACE :: string where "SPACE = ''_&_SPACE_&_''"
definition COLON :: string where "COLON = ''_&_COLON_&_''"
definition PA :: string where "PA = ''_&_PA_&_''"
definition RENS :: string where "RENS = ''_&_RENS_&_''"

text \<open>\<open>_replacepairs\<close>: each entry is a pattern and the sentinel that replaces it.\<close>

definition replacepairs_metaesc :: "pattern \<times> string" where
  "replacepairs_metaesc = (PLit [bslash, bslash], METAESC)"

definition replacepairs_quot :: "pattern \<times> string" where
  "replacepairs_quot = (PLit [bslash, dquote], QUOT)"

definition replacepairs_space :: "pattern \<times> string" where
  "replacepairs_space = (PSpace, SPACE)"

definition replacepairs_colon :: "pattern \<times> string" where
  "replacepairs_colon = (PLit '':'', COLON)"

definition replacepairs_pa :: "pattern \<times> string" where
  "replacepairs_pa = (PLit ''('', PA)"

definition replacepairs_rens :: "pattern \<times> string" where
  "replacepairs_rens = (PLit '')'', RENS)"

text \<open>
  \<open>_revpairs\<close>, in the order of \<open>_revpairs.values()\<close>.  The replacements are the template
  strings of the source: two backslashes for \<open>metaesc\<close>, a backslash and a quotation mark
  for \<open>quot\<close>.
\<close>

definition revpairs :: "(pattern \<times> string) list" where
  "revpairs =
     [(PLit METAESC, [bslash, bslash]),
      (PLit QUOT, [bslash, dquote]),
      (PLit SPACE, '' ''),
      (PLit COLON, '':''),
      (PLit PA, ''(''),
      (PLit RENS, '')'')]"

section \<open>Tokens\<close>

text \<open>
  An entry of the list that \<open>deparse\<close> returns is a \<open>str\<close> or a dictionary with the keys
  \<open>field\<close> and \<open>term\<close>, where \<open>field\<close> may be \<open>None\<close>.
\<close>

datatype token = Literal string | Term "string option" string

datatype error = KeyError | IndexError | TypeError | AttributeError

section \<open>The unescaper\<close>

text \<open>The inner loop of \<open>_unreplace\<close>: every pair of \<open>_revpairs\<close> in turn, on one value.\<close>

definition unreplace_value :: "string \<Rightarrow> string" where
  "unreplace_value v = foldl (\<lambda>s (fro, to). re_sub fro to s) v revpairs"

text \<open>
  \<open>_unreplace\<close> skips the entries that are not dictionaries and the values that are
  \<open>None\<close> or empty (\<open>if termdict.get(key)\<close>).
\<close>

fun unreplace_token :: "token \<Rightarrow> token" where
  "unreplace_token (Literal s) = Literal s"
| "unreplace_token (Term field term) =
     Term (case field of None \<Rightarrow> None
           | Some f \<Rightarrow> if f \<noteq> [] then Some (unreplace_value f) else Some f)
          (if term \<noteq> [] then unreplace_value term else term)"

definition unreplace :: "token list \<Rightarrow> token list" where
  "unreplace tokens = map unreplace_token tokens"

section \<open>The escaper\<close>

definition replace_metaescape :: "string \<Rightarrow> string" where
  "replace_metaescape qstring = (case replacepairs_metaesc of (fro, to) \<Rightarrow> re_sub fro to qstring)"

definition replace_esc_quotes :: "string \<Rightarrow> string" where
  "replace_esc_quotes qstring = (case replacepairs_quot of (fro, to) \<Rightarrow> re_sub fro to qstring)"

text \<open>
  The patterns that mark a range all have one shape: an opening text, \<open>.*?\<close>, and a
  closing character, where the opening text and the closing character may each carry
  the lookbehind \<open>(?<!\\)\<close>.  \<open>Span lo opener lc closer\<close> is that pattern; \<open>lo\<close> and
  \<open>lc\<close> say whether the lookbehind is there.
\<close>

datatype rangepat = Span bool string bool char

definition rangeex :: rangepat where "rangeex = Span True ''{'' True (CHR ''}'')"
definition rangeinc :: rangepat where "rangeinc = Span True ''['' True (CHR '']'')"
definition regex :: rangepat where "regex = Span True ''/'' True (CHR ''/'')"
definition quoted :: rangepat where "quoted = Span False [dquote] False dquote"

text \<open>The pattern \<open>:\(.*?(?<!\\)\)\<close> of \<open>_repspaces_in_subqueries\<close>.\<close>

definition subquery :: rangepat where "subquery = Span False '':('' True (CHR '')'')"

text \<open>
  The lookbehind \<open>(?<!\\)\<close> fails where the character before the position is a backslash;
  \<open>prev\<close> is that character, \<open>None\<close> at the start of the string.
\<close>

definition escaped :: "bool \<Rightarrow> char option \<Rightarrow> bool" where
  "escaped lb prev = (lb \<and> prev = Some bslash)"

text \<open>
  \<open>.*?\<close> followed by the closing character: the match ends at the first closing
  character that passes its lookbehind, and there is none when a line feed, which \<open>.\<close>
  does not match, comes first.  The result is the matched text and the rest of the string.
\<close>

fun lazy_until :: "bool \<Rightarrow> char \<Rightarrow> char option \<Rightarrow> string \<Rightarrow> (string \<times> string) option" where
  "lazy_until lc closer prev [] = None"
| "lazy_until lc closer prev (c # cs) =
     (if c = closer \<and> \<not> escaped lc prev then Some ([c], cs)
      else if c = newline then None
      else (case lazy_until lc closer (Some c) cs of
              None \<Rightarrow> None
            | Some (m, r) \<Rightarrow> Some (c # m, r)))"

lemma lazy_until_shorter:
  "lazy_until lc closer prev s = Some (m, r) \<Longrightarrow> length r < length s"
proof (induction s arbitrary: prev m)
  case Nil
  then show ?case by simp
next
  case (Cons c cs)
  show ?case
  proof (cases "c = closer \<and> \<not> escaped lc prev")
    case True
    with Cons.prems show ?thesis by auto
  next
    case False
    with Cons.prems obtain m' where "lazy_until lc closer (Some c) cs = Some (m', r)"
      by (auto split: if_splits option.splits)
    from Cons.IH[OF this] show ?thesis by simp
  qed
qed

text \<open>
  \<open>re.findall\<close> for a range pattern: the matches from left to right, the search going
  on behind each match.
\<close>

function findall :: "rangepat \<Rightarrow> char option \<Rightarrow> string \<Rightarrow> string list" where
  "findall pat prev [] = []"
| "findall (Span lo opener lc closer) prev (c # cs) =
     (if prefix opener (c # cs) \<and> \<not> escaped lo prev then
        (case lazy_until lc closer (if opener = [] then prev else Some (last opener))
                (drop (length opener) (c # cs)) of
           Some (m, r) \<Rightarrow> (opener @ m) # findall (Span lo opener lc closer) (Some closer) r
         | None \<Rightarrow> findall (Span lo opener lc closer) (Some c) cs)
      else findall (Span lo opener lc closer) (Some c) cs)"
  by pat_completeness auto
termination
proof (relation "measure (\<lambda>(pat, prev, s). length s)")
  fix lo opener lc closer prev c cs x m r
  assume "lazy_until lc closer (if opener = [] then prev else Some (last opener))
            (drop (length opener) (c # cs)) = Some x" and "(m, r) = x"
  then have "length r < length (drop (length opener) (c # cs))"
    using lazy_until_shorter by metis
  then show "((Span lo opener lc closer, Some closer, r), Span lo opener lc closer, prev, c # cs)
      \<in> measure (\<lambda>(pat, prev, s). length s)"
    by simp
qed simp_all

text \<open>The loop over \<open>zip(matches, replacements)\<close>, each step a \<open>str.replace\<close>.\<close>

fun replace_matches :: "(string \<times> string) list \<Rightarrow> string \<Rightarrow> string" where
  "replace_matches [] qstring = qstring"
| "replace_matches ((m, rep) # ps) qstring = replace_matches ps (str_replace m rep qstring)"

fun replace_in_range :: "string \<Rightarrow> rangepat list \<Rightarrow> pattern \<times> string \<Rightarrow> string" where
  "replace_in_range qstring [] repair = qstring"
| "replace_in_range qstring (pat # rangepats) repair =
     (let matches = findall pat None qstring;
          replacements = map (re_sub (fst repair) (snd repair)) matches
      in replace_in_range (replace_matches (zip matches replacements) qstring) rangepats repair)"

definition repspaces_in_ranges :: "string \<Rightarrow> string" where
  "repspaces_in_ranges qstring =
     (let ranges = [rangeex, rangeinc, regex, quoted];
          re_pairs = [replacepairs_space, replacepairs_colon, replacepairs_pa, replacepairs_rens]
      in foldl (\<lambda>q repair. replace_in_range q ranges repair) qstring re_pairs)"

section \<open>The tokenizer\<close>

text \<open>
  \<open>_addparenswhitespace\<close>: the replacement of a parenthesis is looked up in the
  dictionary \<open>reparens\<close>; a key that is missing there raises \<open>KeyError\<close>.
\<close>

definition reparens :: "char \<rightharpoonup> string" where
  "reparens = [CHR ''('' \<mapsto> '' ( '', CHR '')'' \<mapsto> '' ) '']"

fun addparenswhitespace :: "string \<Rightarrow> error + string" where
  "addparenswhitespace [] = Inr []"
| "addparenswhitespace (c # cs) =
     (if c = CHR ''('' \<or> c = CHR '')'' then
        (case reparens c of
           None \<Rightarrow> Inl KeyError
         | Some r \<Rightarrow> (case addparenswhitespace cs of Inl e \<Rightarrow> Inl e | Inr q \<Rightarrow> Inr (r @ q)))
      else (case addparenswhitespace cs of Inl e \<Rightarrow> Inl e | Inr q \<Rightarrow> Inr (c # q)))"

text \<open>
  \<open>_stripspaces\<close> substitutes \<open>:\<close> for every match of \<open>\s*(?<!\\\\):\s*\<close>.  The pattern
  is a raw string, so its lookbehind asks for two backslashes before the colon.
  \<open>seen\<close> holds the characters in front of the position, the nearest first.
\<close>

definition two_backslashes :: "string \<Rightarrow> bool" where
  "two_backslashes seen = (take 2 seen = [bslash, bslash])"

function stripspaces_from :: "string \<Rightarrow> string \<Rightarrow> string" where
  "stripspaces_from seen [] = []"
| "stripspaces_from seen (c # cs) =
     (let ws = takeWhile isspace (c # cs); rest = dropWhile isspace (c # cs)
      in case rest of
           [] \<Rightarrow> c # stripspaces_from (c # seen) cs
         | d # ds \<Rightarrow>
             if d = CHR '':'' \<and> \<not> two_backslashes (rev ws @ seen)
             then CHR '':'' #
                  stripspaces_from (rev (takeWhile isspace ds) @ d # rev ws @ seen)
                    (dropWhile isspace ds)
             else c # stripspaces_from (c # seen) cs)"
  by pat_completeness auto
termination
proof (relation "measure (\<lambda>(seen, s). length s)")
  fix seen :: string and c cs ws rest d ds
  assume "rest = dropWhile isspace (c # cs)" "rest = d # ds"
  then have "length (d # ds) \<le> length (c # cs)"
    using length_dropWhile_le[of isspace "c # cs"] by simp
  moreover have "length (dropWhile isspace ds) \<le> length ds"
    by (rule length_dropWhile_le)
  ultimately show "((rev (takeWhile isspace ds) @ d # rev ws @ seen, dropWhile isspace ds),
      seen, c # cs) \<in> measure (\<lambda>(seen, s). length s)"
    by simp
qed simp_all

definition stripspaces :: "string \<Rightarrow> string" where
  "stripspaces qstring = stripspaces_from [] qstring"

definition repspaces_in_subqueries :: "string \<Rightarrow> string" where
  "repspaces_in_subqueries qstring =
     (let re_pairs = [replacepairs_space, (PColonNotStart, ''_&_COLON_&_'')];
          rangepats = [subquery]
      in foldl (\<lambda>q repair. replace_in_range q rangepats repair) qstring re_pairs)"

text \<open>\<open>str.split()\<close>: the maximal runs of characters that are not whitespace.\<close>

function split :: "string \<Rightarrow> string list" where
  "split s =
     (case dropWhile isspace s of
        [] \<Rightarrow> []
      | c # cs \<Rightarrow> (c # takeWhile (\<lambda>x. \<not> isspace x) cs) # split (dropWhile (\<lambda>x. \<not> isspace x) cs))"
  by pat_completeness auto
termination
proof (relation "measure length")
  fix s :: string and c cs
  assume "dropWhile isspace s = c # cs"
  then have "length (c # cs) \<le> length s"
    using length_dropWhile_le[of isspace s] by simp
  moreover have "length (dropWhile (\<lambda>x. \<not> isspace x) cs) \<le> length cs"
    by (rule length_dropWhile_le)
  ultimately show "(dropWhile (\<lambda>x. \<not> isspace x) cs, s) \<in> measure length"
    by simp
qed simp

declare split.simps [simp del]

section \<open>The classifier\<close>

text \<open>
  \<open>re.match(nonterms, t)\<close> with \<open>nonterms = 'AND|OR|NOT|!|&&|\|\||\(|\)'\<close>: \<open>re.match\<close>
  looks for a match at the start of \<open>t\<close>, so it succeeds when one of the alternatives
  is a prefix of \<open>t\<close>.
\<close>

definition nonterms :: "string list" where
  "nonterms = [''AND'', ''OR'', ''NOT'', ''!'', ''&&'', ''||'', ''('', '')'']"

definition re_match_nonterms :: "string \<Rightarrow> bool" where
  "re_match_nonterms t = list_ex (\<lambda>p. prefix p t) nonterms"

text \<open>
  \<open>re.split('(?<!\\):', t)\<close>: \<open>t\<close> is cut at every colon that has no backslash before it.
  The result is the first part and the list of the parts that follow.
\<close>

fun split_colon_from :: "char option \<Rightarrow> string \<Rightarrow> string \<times> string list" where
  "split_colon_from prev [] = ([], [])"
| "split_colon_from prev (c # cs) =
     (case split_colon_from (Some c) cs of
        (p, ps) \<Rightarrow> if c = CHR '':'' \<and> \<not> escaped True prev then ([], p # ps) else (c # p, ps))"

definition re_split_colon :: "string \<Rightarrow> string list" where
  "re_split_colon t = (case split_colon_from None t of (p, ps) \<Rightarrow> p # ps)"

text \<open>\<open>xs[i]\<close> for an index that is not negative.\<close>

definition getitem :: "'a list \<Rightarrow> nat \<Rightarrow> error + 'a" where
  "getitem xs i = (if i < length xs then Inr (xs ! i) else Inl IndexError)"

text \<open>The body of the loop of \<open>_termdicts\<close>, for one term token.\<close>

definition termdict :: "string \<Rightarrow> error + token" where
  "termdict t =
     (let parts = re_split_colon t
      in if length parts = 1
         then (case getitem parts 0 of Inl e \<Rightarrow> Inl e | Inr p0 \<Rightarrow> Inr (Term None p0))
         else (case getitem parts 0 of
                 Inl e \<Rightarrow> Inl e
               | Inr p0 \<Rightarrow> (case getitem parts 1 of
                               Inl e \<Rightarrow> Inl e
                             | Inr p1 \<Rightarrow> Inr (Term (Some p0) p1))))"

fun termdicts :: "string list \<Rightarrow> error + token list" where
  "termdicts [] = Inr []"
| "termdicts (t # qsplitted) =
     (if re_match_nonterms t
      then (case termdicts qsplitted of Inl e \<Rightarrow> Inl e | Inr r \<Rightarrow> Inr (Literal t # r))
      else (case termdict t of
              Inl e \<Rightarrow> Inl e
            | Inr d \<Rightarrow> (case termdicts qsplitted of Inl e \<Rightarrow> Inl e | Inr r \<Rightarrow> Inr (d # r))))"

section \<open>deparse\<close>

text \<open>The string that \<open>_parse\<close> splits: the input after the six rewriting steps.\<close>

definition prepare :: "string \<Rightarrow> error + string" where
  "prepare qstring =
     (case addparenswhitespace (repspaces_in_ranges (replace_esc_quotes (replace_metaescape qstring))) of
        Inl e \<Rightarrow> Inl e
      | Inr q \<Rightarrow> Inr (repspaces_in_subqueries (stripspaces q)))"

definition parse :: "string \<Rightarrow> error + token list" where
  "parse qstring = (case prepare qstring of Inl e \<Rightarrow> Inl e | Inr q \<Rightarrow> termdicts (split q))"

definition deparse :: "string \<Rightarrow> error + token list" where
  "deparse qstring = (case parse qstring of Inl e \<Rightarrow> Inl e | Inr ts \<Rightarrow> Inr (unreplace ts))"

section \<open>assemble\<close>

text \<open>\<open>sep.join(xs)\<close> for a list of strings.\<close>

fun join :: "string \<Rightarrow> string list \<Rightarrow> string" where
  "join sep [] = []"
| "join sep [x] = x"
| "join sep (x # y # ys) = x @ sep @ join sep (y # ys)"

text \<open>
  The string that \<open>assemble\<close> appends for one entry.  A field that is \<open>None\<close> or empty
  is falsy and contributes nothing.
\<close>

fun assemble_token :: "token \<Rightarrow> string" where
  "assemble_token (Literal s) = s"
| "assemble_token (Term field term) =
     (case field of
        None \<Rightarrow> []
      | Some tstring \<Rightarrow> if tstring \<noteq> [] then tstring @ '' : '' else []) @ term"

definition assemble :: "token list \<Rightarrow> string" where
  "assemble tokens = join '' '' (map assemble_token tokens)"

section \<open>Sentinels in a value\<close>

definition sentinels :: "string list" where
  "sentinels = [METAESC, QUOT, SPACE, COLON, PA, RENS]"

definition sentinel_free :: "string \<Rightarrow> bool" where
  "sentinel_free s = (\<not> list_ex (\<lambda>p. sublist p s) sentinels)"

text \<open>The texts that the reverse table writes are made of these characters only.\<close>

definition rev_output :: "string \<Rightarrow> bool" where
  "rev_output new =
     (new \<noteq> [] \<and> set new \<subseteq> set [bslash, dquote, CHR '' '', CHR '':'', CHR ''('', CHR '')''])"

section \<open>Queries of words, operators and fields\<close>








text \<open>A dictionary whose \<open>field\<close> is the empty string.\<close>

fun empty_field :: "token \<Rightarrow> bool" where
  "empty_field (Literal s) = False"
| "empty_field (Term None term) = False"
| "empty_field (Term (Some f) term) = (f = [])"

section \<open>assemble on the object store\<close>

text \<open>
  \<open>assemble\<close> receives a reference to a list whose entries are strings or references to
  dictionaries; lists and dictionaries are mutable.  The store is the list of the objects
  allocated so far, an address is an index into it, and a new object is put at its
  end.  Strings and \<open>None\<close> are immutable and are values, not objects.
\<close>

type_synonym addr = nat

datatype pyval = PNone | PStr string | PRef addr

datatype pyobj = PDict "(string \<times> pyval) list" | PList "pyval list"

type_synonym heap = "pyobj list"

definition alloc :: "heap \<Rightarrow> pyobj \<Rightarrow> addr \<times> heap" where
  "alloc h ob = (length h, h @ [ob])"

text \<open>\<open>d.get(k)\<close>: the value of the key, or \<open>None\<close>.\<close>

definition dict_get :: "(string \<times> pyval) list \<Rightarrow> string \<Rightarrow> pyval" where
  "dict_get d k = (case map_of d k of None \<Rightarrow> PNone | Some v \<Rightarrow> v)"

text \<open>
  The truth value of an object: \<open>None\<close>, the empty string, the empty list and the empty
  dictionary are false.
\<close>

fun truthy :: "heap \<Rightarrow> pyval \<Rightarrow> bool" where
  "truthy h PNone = False"
| "truthy h (PStr s) = (s \<noteq> [])"
| "truthy h (PRef r) =
     (if r < length h then (case h ! r of PDict d \<Rightarrow> d \<noteq> [] | PList l \<Rightarrow> l \<noteq> []) else True)"

text \<open>\<open>x + y\<close> as the code uses it: both operands have to be strings.\<close>

fun str_concat :: "pyval \<Rightarrow> pyval \<Rightarrow> error + pyval" where
  "str_concat (PStr a) (PStr b) = Inr (PStr (a @ b))"
| "str_concat x y = Inl TypeError"

text \<open>
  The body of the loop of \<open>assemble\<close> up to the \<open>append\<close>: the value that is appended to
  \<open>querylist\<close> for one entry.
\<close>

definition assemble_entry :: "heap \<Rightarrow> pyval \<Rightarrow> error + pyval" where
  "assemble_entry h entry =
     (case entry of
        PRef r \<Rightarrow>
          (if r < length h then
             (case h ! r of
                PDict d \<Rightarrow>
                  (case (if truthy h (dict_get d ''field'')
                         then str_concat (dict_get d ''field'') (PStr '' : '')
                         else Inr (PStr [])) of
                     Inl e \<Rightarrow> Inl e
                   | Inr tstring \<Rightarrow> str_concat tstring (dict_get d ''term''))
              | PList l \<Rightarrow> Inr entry)
           else Inr entry)
      | PNone \<Rightarrow> Inr entry
      | PStr s \<Rightarrow> Inr entry)"

text \<open>\<open>querylist.append(v)\<close>: the list object at the address is replaced by the longer list.\<close>

definition list_append :: "heap \<Rightarrow> addr \<Rightarrow> pyval \<Rightarrow> error + heap" where
  "list_append h a v =
     (if a < length h then
        (case h ! a of
           PList l \<Rightarrow> Inr (h[a := PList (l @ [v])])
         | PDict d \<Rightarrow> Inl AttributeError)
      else Inl AttributeError)"

text \<open>
  The loop over the entries.  Its body writes to \<open>querylist\<close> only, so the entries are
  those that the argument had when the loop started.
\<close>

fun assemble_loop :: "addr \<Rightarrow> pyval list \<Rightarrow> heap \<Rightarrow> error option \<times> heap" where
  "assemble_loop querylist [] h = (None, h)"
| "assemble_loop querylist (entry # rest) h =
     (case assemble_entry h entry of
        Inl e \<Rightarrow> (Some e, h)
      | Inr x \<Rightarrow>
          (case list_append h querylist x of
             Inl e \<Rightarrow> (Some e, h)
           | Inr h' \<Rightarrow> assemble_loop querylist rest h'))"

text \<open>\<open>' '.join(querylist)\<close> raises \<open>TypeError\<close> for an entry that is not a string.\<close>

fun strs_of :: "pyval list \<Rightarrow> error + string list" where
  "strs_of [] = Inr []"
| "strs_of (PStr s # vs) = (case strs_of vs of Inl e \<Rightarrow> Inl e | Inr ss \<Rightarrow> Inr (s # ss))"
| "strs_of (v # vs) = Inl TypeError"

text \<open>
  \<open>assemble\<close> with the store: the argument is the address of a list (the docstring: a list
  of the form returned by \<open>deparse\<close>); the result is the query string or the exception,
  and the store after the call.
\<close>

definition assemble_heap :: "heap \<Rightarrow> addr \<Rightarrow> (error + string) \<times> heap" where
  "assemble_heap h a =
     (if a < length h then
        (case h ! a of
           PList entries \<Rightarrow>
             (case alloc h (PList []) of
                (querylist, h1) \<Rightarrow>
                  (case assemble_loop querylist entries h1 of
                     (Some e, h2) \<Rightarrow> (Inl e, h2)
                   | (None, h2) \<Rightarrow>
                       (case h2 ! querylist of
                          PList xs \<Rightarrow>
                            (case strs_of xs of
                               Inl e \<Rightarrow> (Inl e, h2)
                             | Inr ss \<Rightarrow> (Inr (join '' '' ss), h2))
                        | PDict d \<Rightarrow> (Inl TypeError, h2))))
         | PDict d \<Rightarrow> (Inl TypeError, h))
      else (Inl TypeError, h))"

text \<open>
  \<open>represents h bound t v\<close>: in the store \<open>h\<close> the value \<open>v\<close> stands for the token \<open>t\<close>: the
  string itself for a literal, for a term a reference below \<open>bound\<close> to a dictionary with
  the field and the term of \<open>t\<close>.
\<close>

definition field_value :: "string option \<Rightarrow> pyval" where
  "field_value f = (case f of None \<Rightarrow> PNone | Some x \<Rightarrow> PStr x)"

fun represents :: "heap \<Rightarrow> addr \<Rightarrow> token \<Rightarrow> pyval \<Rightarrow> bool" where
  "represents h bound (Literal s) v = (v = PStr s)"
| "represents h bound (Term f t) v =
     (case v of
        PRef r \<Rightarrow> r < bound \<and> r < length h \<and>
          (case h ! r of
             PDict d \<Rightarrow> dict_get d ''field'' = field_value f \<and> dict_get d ''term'' = PStr t
           | PList l \<Rightarrow> False)
      | PNone \<Rightarrow> False
      | PStr s \<Rightarrow> False)"

section \<open>Replacing a literal text\<close>

lemma str_replace_prefix:
  "old \<noteq> [] \<Longrightarrow> new \<noteq> [] \<Longrightarrow> set new \<inter> set q = {} \<Longrightarrow>
   prefix q (str_replace old new s) \<Longrightarrow> prefix q s"
proof (induction old new s arbitrary: q rule: str_replace.induct)
  case (1 old new)
  then show ?case by simp
next
  case (2 old new c cs)
  show ?case
  proof (cases "prefix old (c # cs)")
    case True
    with 2 have "prefix q (new @ str_replace old new (drop (length old) (c # cs)))" by simp
    moreover obtain n ns where "new = n # ns" using 2(5) by (cases new) auto
    ultimately have "q = []" using 2(6) by (cases q) auto
    then show ?thesis by simp
  next
    case False
    with 2 have pq: "prefix q (c # str_replace old new cs)" by simp
    show ?thesis
    proof (cases q)
      case Nil
      then show ?thesis by simp
    next
      case (Cons a q')
      with pq have "a = c" "prefix q' (str_replace old new cs)" by auto
      moreover have "set new \<inter> set q' = {}" using 2(6) Cons by auto
      ultimately have "prefix q' cs" using 2(3)[of q'] 2(4,5) False by simp
      then show ?thesis using Cons \<open>a = c\<close> by simp
    qed
  qed
qed

lemma sublist_append_disjoint:
  "q \<noteq> [] \<Longrightarrow> set new \<inter> set q = {} \<Longrightarrow> sublist q (new @ r) \<Longrightarrow> sublist q r"
proof (induction new)
  case Nil
  then show ?case by simp
next
  case (Cons n ns)
  from Cons.prems(3) have "prefix q (n # ns @ r) \<or> sublist q (ns @ r)"
    by (simp add: sublist_Cons_right)
  moreover have "\<not> prefix q (n # ns @ r)" using Cons.prems(1,2) by (cases q) auto
  ultimately show ?case using Cons by auto
qed

lemma str_replace_sublist:
  "old \<noteq> [] \<Longrightarrow> new \<noteq> [] \<Longrightarrow> q \<noteq> [] \<Longrightarrow> set new \<inter> set q = {} \<Longrightarrow>
   sublist q (str_replace old new s) \<Longrightarrow> sublist q s"
proof (induction old new s rule: str_replace.induct)
  case (1 old new)
  then show ?case by simp
next
  case (2 old new c cs)
  show ?case
  proof (cases "prefix old (c # cs)")
    case True
    with 2 have "sublist q (new @ str_replace old new (drop (length old) (c # cs)))" by simp
    then have "sublist q (str_replace old new (drop (length old) (c # cs)))"
      using sublist_append_disjoint 2 by blast
    then have "sublist q (drop (length old) (c # cs))" using 2 True by simp
    then show ?thesis using sublist_drop sublist_order.order_trans by blast 
  next
    case False
    with 2 have "sublist q (c # str_replace old new cs)" by simp
    then have "prefix q (str_replace old new (c # cs)) \<or> sublist q (str_replace old new cs)"
      using False 2(4) by (simp add: sublist_Cons_right)
    then show ?thesis
    proof
      assume "prefix q (str_replace old new (c # cs))"
      then have "prefix q (c # cs)" using str_replace_prefix 2 by blast
      then show ?thesis by auto
    next
      assume "sublist q (str_replace old new cs)"
      then have "sublist q cs" using 2 False by simp
      then show ?thesis by (simp add: sublist_Cons_right)
    qed
  qed
qed

lemma str_replace_gone:
  "old \<noteq> [] \<Longrightarrow> new \<noteq> [] \<Longrightarrow> set new \<inter> set old = {} \<Longrightarrow>
   \<not> sublist old (str_replace old new s)"
proof (induction old new s rule: str_replace.induct)
  case (1 old new)
  then show ?case by simp
next
  case (2 old new c cs)
  show ?case
  proof (cases "prefix old (c # cs)")
    case True
    have "\<not> sublist old (str_replace old new (drop (length old) (c # cs)))"
      using 2 True by simp
    then have "\<not> sublist old (new @ str_replace old new (drop (length old) (c # cs)))"
      using sublist_append_disjoint 2 by blast
    then show ?thesis using True 2(4) by simp
  next
    case False
    have "\<not> sublist old (str_replace old new cs)" using 2 False by simp
    moreover have "\<not> prefix old (str_replace old new (c # cs))"
      using str_replace_prefix[of old new old "c # cs"] 2 False by blast
    ultimately show ?thesis using False 2(4) by (simp add: sublist_Cons_right)
  qed
qed

lemma str_replace_absent:
  "old \<noteq> [] \<Longrightarrow> \<not> sublist old s \<Longrightarrow> str_replace old new s = s"
proof (induction old new s rule: str_replace.induct)
  case (1 old new)
  then show ?case by simp
next
  case (2 old new c cs)
  then show ?case by (auto simp: sublist_Cons_right)
qed

section \<open>The unescaper leaves no sentinel\<close>

lemma sentinel_props:
  assumes "p \<in> set sentinels" "rev_output new"
  shows "p \<noteq> []" "new \<noteq> []" "set new \<inter> set p = {}"
  using assms
  by (auto simp: sentinels_def rev_output_def METAESC_def QUOT_def SPACE_def COLON_def PA_def
      RENS_def bslash_def dquote_def)

lemma unrev_keeps:
  assumes "p \<in> set sentinels" "rev_output new" "old \<noteq> []" "\<not> sublist p s"
  shows "\<not> sublist p (str_replace old new s)"
  using str_replace_sublist[of old new p s] sentinel_props[OF assms(1,2)] assms(3,4) by blast

lemma unrev_removes:
  assumes "p \<in> set sentinels" "rev_output new"
  shows "\<not> sublist p (str_replace p new s)"
  using str_replace_gone[of p new s] sentinel_props[OF assms] by blast

lemma rev_outputs:
  "rev_output (expand_template [bslash, bslash])" "rev_output (expand_template [bslash, dquote])"
  "rev_output (expand_template '' '')" "rev_output (expand_template '':'')"
  "rev_output (expand_template ''('')" "rev_output (expand_template '')'')"
  by (simp_all add: rev_output_def bslash_def dquote_def)

lemma in_sentinels:
  "METAESC \<in> set sentinels" "QUOT \<in> set sentinels" "SPACE \<in> set sentinels"
  "COLON \<in> set sentinels" "PA \<in> set sentinels" "RENS \<in> set sentinels"
  by (simp_all add: sentinels_def)

lemma sentinels_nonempty:
  "METAESC \<noteq> []" "QUOT \<noteq> []" "SPACE \<noteq> []" "COLON \<noteq> []" "PA \<noteq> []" "RENS \<noteq> []"
  by (simp_all add: METAESC_def QUOT_def SPACE_def COLON_def PA_def RENS_def)

lemma unreplace_value_unfold:
  "unreplace_value v =
    str_replace RENS (expand_template '')'')
     (str_replace PA (expand_template ''('')
      (str_replace COLON (expand_template '':'')
       (str_replace SPACE (expand_template '' '')
        (str_replace QUOT (expand_template [bslash, dquote])
         (str_replace METAESC (expand_template [bslash, bslash]) v)))))"
  by (simp add: unreplace_value_def revpairs_def)

lemma unreplace_value_sentinel_free: "sentinel_free (unreplace_value v)"
proof -
  note k = unrev_keeps[OF _ _ sentinels_nonempty(1)] unrev_keeps[OF _ _ sentinels_nonempty(2)]
    unrev_keeps[OF _ _ sentinels_nonempty(3)] unrev_keeps[OF _ _ sentinels_nonempty(4)]
    unrev_keeps[OF _ _ sentinels_nonempty(5)] unrev_keeps[OF _ _ sentinels_nonempty(6)]
  have "\<not> sublist METAESC (unreplace_value v)"
    unfolding unreplace_value_unfold
    by (intro k in_sentinels rev_outputs unrev_removes)
  moreover have "\<not> sublist QUOT (unreplace_value v)"
    unfolding unreplace_value_unfold
    by (intro k in_sentinels rev_outputs unrev_removes)
  moreover have "\<not> sublist SPACE (unreplace_value v)"
    unfolding unreplace_value_unfold
    by (intro k in_sentinels rev_outputs unrev_removes)
  moreover have "\<not> sublist COLON (unreplace_value v)"
    unfolding unreplace_value_unfold
    by (intro k in_sentinels rev_outputs unrev_removes)
  moreover have "\<not> sublist PA (unreplace_value v)"
    unfolding unreplace_value_unfold
    by (intro k in_sentinels rev_outputs unrev_removes)
  moreover have "\<not> sublist RENS (unreplace_value v)"
    unfolding unreplace_value_unfold
    by (intro k in_sentinels rev_outputs unrev_removes)
  ultimately show ?thesis by (simp add: sentinel_free_def sentinels_def)
qed

lemma unreplace_value_fixed:
  assumes "sentinel_free s"
  shows "unreplace_value s = s"
  using assms sentinels_nonempty
  by (simp add: unreplace_value_unfold sentinel_free_def sentinels_def str_replace_absent)

text \<open>
  C7: the unescaper is idempotent.  Applying the reverse substitutions of \<open>_revpairs\<close>
  (metaescape, quote, whitespace, colon, open parenthesis, close parenthesis) to a value
  twice gives the same string as applying them once, and \<open>_unreplace\<close> applied twice to
  a token list gives the same list as \<open>_unreplace\<close> applied once.
\<close>

theorem unescaper_idempotent:
  "unreplace_value (unreplace_value v) = unreplace_value v \<and>
   unreplace (unreplace ts) = unreplace ts"
proof -
  have value_idem: "unreplace_value (unreplace_value w) = unreplace_value w" for w
    by (rule unreplace_value_fixed[OF unreplace_value_sentinel_free])
  have "unreplace_token (unreplace_token t) = unreplace_token t" for t
    by (cases t) (auto simp: value_idem split: option.splits)
  then show ?thesis by (simp add: unreplace_def value_idem)
qed

section \<open>deparse always returns\<close>

lemma addparenswhitespace_Inr:
  "addparenswhitespace s =
     Inr (concat (map (\<lambda>c. if c = CHR ''('' then '' ( '' else if c = CHR '')'' then '' ) '' else [c]) s))"
  by (induction s) (simp_all add: reparens_def)

lemma re_split_colon_length: "length (re_split_colon t) = Suc (length (snd (split_colon_from None t)))"
  by (simp add: re_split_colon_def split: prod.splits)

lemma termdict_Inr:
  "termdict t =
     Inr (case re_split_colon t of [p0] \<Rightarrow> Term None p0 | p0 # p1 # ps \<Rightarrow> Term (Some p0) p1)"
proof (cases "re_split_colon t")
  case Nil
  then show ?thesis by (simp add: re_split_colon_def split: prod.splits)
next
  case (Cons p0 ps)
  then show ?thesis by (cases ps) (simp_all add: termdict_def getitem_def)
qed

lemma termdicts_Inr:
  "termdicts ts = Inr (map (\<lambda>t. if re_match_nonterms t then Literal t
      else (case re_split_colon t of [p0] \<Rightarrow> Term None p0 | p0 # p1 # ps \<Rightarrow> Term (Some p0) p1)) ts)"
  by (induction ts) (simp_all add: termdict_Inr)

lemma prepare_total: "\<exists>p. prepare q = Inr p"
  by (simp add: prepare_def addparenswhitespace_Inr)

text \<open>
  C3: for every input string, also one with unbalanced parentheses or with quotes or
  ranges that are not closed, \<open>deparse\<close> returns a token sequence and raises no exception:
  neither the lookup in \<open>reparens\<close> nor the indexing of \<open>parts\<close> in \<open>_termdicts\<close> fails.
\<close>

theorem deparse_never_raises: "\<exists>ts. deparse q = Inr ts"
proof -
  obtain p where "prepare q = Inr p" using prepare_total by blast
  then show ?thesis by (simp add: deparse_def parse_def termdicts_Inr)
qed

section \<open>The example of the module's documentation\<close>

text \<open>
  C2: \<open>deparse('author: Meier tags:(water OR fire) "open access"')\<close> returns the three
  terms \<open>author\<close>/\<open>Meier\<close>, \<open>tags\<close>/\<open>( water OR fire )\<close> and the term \<open>"open access"\<close> without
  a field, in this order.
\<close>

theorem deparse_example:
  "deparse (''author: Meier tags:(water OR fire) '' @ [dquote] @ ''open access'' @ [dquote]) =
     Inr [Term (Some ''author'') ''Meier'',
          Term (Some ''tags'') ''( water OR fire )'',
          Term None ([dquote] @ ''open access'' @ [dquote])]"
  by code_simp

text \<open>
  The second half of the example: after the first term has been changed, \<open>assemble\<close>
  returns the documented string, on tokens and on the object store alike.
\<close>

lemma assemble_example:
  "assemble [Term (Some ''author'') ''(Meier OR Mueller -Donald)'',
             Term (Some ''tags'') ''( water OR fire )'',
             Term None ([dquote] @ ''open access'' @ [dquote])] =
     ''author : (Meier OR Mueller -Donald) tags : ( water OR fire ) '' @
       [dquote] @ ''open access'' @ [dquote]"
  by code_simp

lemma assemble_heap_example:
  "fst (assemble_heap
     [PDict [(''field'', PStr ''author''), (''term'', PStr ''(Meier OR Mueller -Donald)'')],
      PDict [(''field'', PStr ''tags''), (''term'', PStr ''( water OR fire )'')],
      PDict [(''field'', PNone), (''term'', PStr ([dquote] @ ''open access'' @ [dquote]))],
      PList [PRef 0, PRef 1, PRef 2]] 3) =
     Inr (''author : (Meier OR Mueller -Donald) tags : ( water OR fire ) '' @
       [dquote] @ ''open access'' @ [dquote])"
  by code_simp

section \<open>Where the code departs from its description\<close>

text \<open>What the classifier does in general: a raw token is kept as a literal exactly when
  one of the operators is a prefix of it.\<close>

lemma literal_iff_prefix:
  "(termdicts [t] = Inr [Literal t]) = list_ex (\<lambda>p. prefix p t) nonterms"
proof (cases "re_split_colon t")
  case Nil
  then show ?thesis by (simp add: re_split_colon_def split: prod.splits)
next
  case (Cons p0 ps)
  then show ?thesis
    by (cases ps) (simp_all add: termdicts_Inr re_match_nonterms_def)
qed

text \<open>
  C4: a raw token should be a literal exactly when it is one of \<open>AND\<close>, \<open>OR\<close>, \<open>NOT\<close>,
  \<open>!\<close>, \<open>&&\<close>, \<open>||\<close>, \<open>(\<close>, \<open>)\<close>.  The code tests with \<open>re.match\<close>, which accepts every
  token that begins with one of them: the token \<open>ORANGE\<close> is none of the eight operators
  and is still returned as a literal.
\<close>

theorem classifier_prefix_match:
  "list_ex (\<lambda>p. p = ''ORANGE'') nonterms = False \<and>
   re_match_nonterms ''ORANGE'' \<and>
   termdicts [''ORANGE''] = Inr [Literal ''ORANGE''] \<and>
   deparse ''ORANGE'' = Inr [Literal ''ORANGE'']"
  by code_simp

text \<open>
  C5: the term of a token with a field should be the whole text behind the first colon.
  The code splits at every colon and keeps the second part only: for the token
  \<open>a:b:c\<close> the term is \<open>b\<close>, and \<open>:c\<close> is lost.
\<close>

theorem classifier_drops_later_parts:
  "re_split_colon ''a:b:c'' = [''a'', ''b'', ''c''] \<and>
   termdicts [''a:b:c''] = Inr [Term (Some ''a'') ''b''] \<and>
   deparse ''a:b:c'' = Inr [Term (Some ''a'') ''b'']"
  by code_simp

text \<open>
  The values of the terms are free of sentinels: \<open>_unreplace\<close> has removed them, and an
  empty value has none.
\<close>

lemma sentinel_free_Nil: "sentinel_free []"
  by (simp add: sentinel_free_def sentinels_def METAESC_def QUOT_def SPACE_def COLON_def
      PA_def RENS_def)

lemma unreplace_token_sentinel_free:
  "unreplace_token t = Term f v \<Longrightarrow>
   sentinel_free v \<and> (case f of None \<Rightarrow> True | Some x \<Rightarrow> sentinel_free x)"
  by (cases t)
     (auto simp: unreplace_value_sentinel_free sentinel_free_Nil split: option.splits if_splits)

lemma deparse_terms_sentinel_free:
  assumes "deparse q = Inr ts" "Term f v \<in> set ts"
  shows "sentinel_free v \<and> (case f of None \<Rightarrow> True | Some x \<Rightarrow> sentinel_free x)"
proof -
  from assms(1) obtain ts' where "ts = unreplace ts'"
    by (auto simp: deparse_def split: sum.splits)
  with assms(2) obtain t where "unreplace_token t = Term f v"
    by (auto simp: unreplace_def)
  then show ?thesis by (rule unreplace_token_sentinel_free)
qed

text \<open>
  C6: no sentinel should be left in the output of \<open>deparse\<close>.  For the input \<open>OR"a b"\<close>
  the blank inside the quotes is replaced by its sentinel, the token begins with \<open>OR\<close>
  and is taken for a literal, and \<open>_unreplace\<close> skips literals: the sentinel stays.
\<close>

theorem deparse_leaves_sentinel:
  "deparse (''OR'' @ [dquote] @ ''a b'' @ [dquote]) =
     Inr [Literal (''OR'' @ [dquote] @ ''a_&_SPACE_&_b'' @ [dquote])] \<and>
   sentinel_free (''OR'' @ [dquote] @ ''a_&_SPACE_&_b'' @ [dquote]) = False"
  by code_simp

text \<open>
  C8: the whitespace around a colon that stands behind a backslash should be left as it
  is.  The lookbehind of \<open>_stripspaces\<close> asks for two backslashes, so for \<open>a\: b\<close> the
  blank behind the escaped colon is removed, and \<open>deparse\<close> returns one term instead of two.
\<close>

theorem stripspaces_escaped_colon:
  "stripspaces (''a'' @ [bslash] @ '': b'') = ''a'' @ [bslash] @ '':b'' \<and>
   deparse (''a'' @ [bslash] @ '': b'') = Inr [Term None (''a'' @ [bslash] @ '':b'')]"
  by code_simp

section \<open>The round trip\<close>















































section \<open>Empty fields\<close>

text \<open>
  C9, as stated, fails: the raw token \<open>:a\<close> is split into an empty first part and \<open>a\<close>,
  so \<open>deparse(':a')\<close> returns a term whose field is the empty string.
\<close>

theorem empty_field_counterexample:
  "deparse '':a'' = Inr [Term (Some []) ''a'']"
  by code_simp

lemma str_replace_nonempty: "new \<noteq> [] \<Longrightarrow> s \<noteq> [] \<Longrightarrow> str_replace old new s \<noteq> []"
  by (cases s) auto

lemma unreplace_value_nonempty: "v \<noteq> [] \<Longrightarrow> unreplace_value v \<noteq> []"
  unfolding unreplace_value_unfold
  by (intro str_replace_nonempty) (simp_all add: bslash_def dquote_def)

lemma empty_field_unreplace: "empty_field (unreplace_token t) = empty_field t"
  by (cases t rule: empty_field.cases) (simp_all add: unreplace_value_nonempty)

lemma colon_not_nonterm: "\<not> re_match_nonterms (CHR '':'' # cs)"
  by (simp add: re_match_nonterms_def nonterms_def)

lemma empty_field_classified:
  "empty_field (if re_match_nonterms t then Literal t
      else (case re_split_colon t of [p0] \<Rightarrow> Term None p0 | p0 # p1 # ps \<Rightarrow> Term (Some p0) p1))
   = prefix '':'' t"
proof (cases t)
  case Nil
  then show ?thesis by (simp add: re_split_colon_def)
next
  case (Cons c cs)
  obtain p ps where sp: "split_colon_from (Some c) cs = (p, ps)" by (cases "split_colon_from (Some c) cs")
  show ?thesis
  proof (cases "c = CHR '':''")
    case True
    then show ?thesis using Cons sp by (simp add: colon_not_nonterm re_split_colon_def escaped_def)
  next
    case False
    then show ?thesis using Cons sp by (cases ps) (simp_all add: re_split_colon_def)
  qed
qed

text \<open>
  C9, amended: in the output of \<open>deparse\<close> the terms whose field is the empty string are
  exactly those that come from a raw token that begins with a colon; every other entry
  is a literal or a term whose field is \<open>None\<close> or not empty.  Here \<open>p\<close> is the string
  that \<open>_parse\<close> splits into raw tokens.
\<close>

theorem empty_field_iff_leading_colon:
  assumes "prepare q = Inr p" "deparse q = Inr ts"
  shows "map empty_field ts = map (prefix '':'') (split p)"
proof -
  from assms have "ts = unreplace (map (\<lambda>t. if re_match_nonterms t then Literal t
      else (case re_split_colon t of [p0] \<Rightarrow> Term None p0 | p0 # p1 # ps \<Rightarrow> Term (Some p0) p1)) (split p))"
    by (simp add: deparse_def parse_def termdicts_Inr)
  then show ?thesis
    by (simp add: unreplace_def comp_def empty_field_unreplace empty_field_classified)
qed

text \<open>The characterisation at the query \<open>:a b\<close>.\<close>

theorem empty_field_witness:
  "prepare '':a b'' = Inr '':a b'' \<and> deparse '':a b'' = Inr [Term (Some []) ''a'', Term None ''b''] \<and>
   map empty_field [Term (Some []) ''a'', Term None ''b''] = map (prefix '':'') (split '':a b'')"
proof -
  have h1: "prepare '':a b'' = Inr '':a b''" by code_simp
  have h2: "deparse '':a b'' = Inr [Term (Some []) ''a'', Term None ''b'']" by code_simp
  from empty_field_iff_leading_colon[OF h1 h2] h1 h2 show ?thesis by simp
qed

section \<open>assemble leaves its argument alone\<close>

lemma list_append_frame:
  "list_append h q x = Inr h' \<Longrightarrow> length h' = length h \<and> take q h' = take q h"
  by (auto simp: list_append_def split: if_splits pyobj.splits)

lemma assemble_loop_frame:
  "assemble_loop q vs h = (r, h') \<Longrightarrow> length h' = length h \<and> take q h' = take q h"
proof (induction vs arbitrary: h)
  case Nil
  then show ?case by simp
next
  case (Cons v vs)
  show ?case
  proof (cases "assemble_entry h v")
    case (Inl e)
    with Cons.prems show ?thesis by simp
  next
    case (Inr x)
    show ?thesis
    proof (cases "list_append h q x")
      case (Inl e)
      with Cons.prems Inr show ?thesis by simp
    next
      case inr: (Inr h1)
      with Cons.prems Inr have "assemble_loop q vs h1 = (r, h')" by simp
      from Cons.IH[OF this] list_append_frame[OF inr] show ?thesis by simp
    qed
  qed
qed

text \<open>
  C10: \<open>assemble\<close> does not modify its argument.  Every object that is in the store when
  \<open>assemble\<close> is called, the list that is passed and each dictionary it refers to among
  them, is the same object with the same content when the call returns or raises: the
  list keeps its length, its order and its strings, every dictionary its field and its
  term.  The store after the call is the store before it followed by the new objects.
\<close>

theorem assemble_frame: "take (length h) (snd (assemble_heap h a)) = h"
proof (cases "a < length h")
  case False
  then show ?thesis by (simp add: assemble_heap_def)
next
  case True
  show ?thesis
  proof (cases "h ! a")
    case (PDict d)
    with True show ?thesis by (simp add: assemble_heap_def)
  next
    case (PList entries)
    obtain r h2 where loop: "assemble_loop (length h) entries (h @ [PList []]) = (r, h2)"
      by (cases "assemble_loop (length h) entries (h @ [PList []])")
    from assemble_loop_frame[OF loop] have h2: "take (length h) h2 = h" by simp
    have "snd (assemble_heap h a) = h2"
      using True PList loop
      by (simp add: assemble_heap_def alloc_def split: option.splits pyobj.splits sum.splits)
    then show ?thesis using h2 by simp
  qed
qed

text \<open>
  On a list that represents a token sequence, \<open>assemble\<close> on the store returns the string
  of the function \<open>assemble\<close> on tokens.
\<close>

lemma assemble_entry_represents:
  "represents h q t v \<Longrightarrow> assemble_entry h v = Inr (PStr (assemble_token t))"
proof (cases t)
  case (Literal s)
  assume "represents h q t v"
  with Literal show ?thesis by (simp add: assemble_entry_def)
next
  case (Term f tm)
  assume "represents h q t v"
  with Term show ?thesis
    by (cases f)
       (auto simp: assemble_entry_def field_value_def split: pyval.splits pyobj.splits)
qed

lemma represents_update:
  "represents h q t v \<Longrightarrow> q < length h \<Longrightarrow> represents (h[q := ob]) q t v"
  by (cases t) (auto split: pyval.splits pyobj.splits)

lemma assemble_loop_represents:
  assumes "list_all2 (represents h q) ts vs" "q < length h" "h ! q = PList acc"
  shows "assemble_loop q vs h =
           (None, h[q := PList (acc @ map (\<lambda>t. PStr (assemble_token t)) ts)])"
  using assms
proof (induction ts arbitrary: vs h acc)
  case Nil
  then show ?case by (simp add: list_update_same_conv[THEN iffD2])
next
  case (Cons t ts)
  from Cons.prems(1) obtain v vs' where vs: "vs = v # vs'" and
    tv: "represents h q t v" and rest: "list_all2 (represents h q) ts vs'"
    by (auto simp: list_all2_Cons1)
  let ?x = "PStr (assemble_token t)"
  let ?h = "h[q := PList (acc @ [?x])]"
  have e: "assemble_entry h v = Inr ?x" by (rule assemble_entry_represents[OF tv])
  have a: "list_append h q ?x = Inr ?h" using Cons.prems(2,3) by (simp add: list_append_def)
  have "list_all2 (represents ?h q) ts vs'"
    using rest Cons.prems(2) by (auto intro: list_all2_mono represents_update)
  moreover have "q < length ?h" "?h ! q = PList (acc @ [?x])" using Cons.prems(2) by simp_all
  ultimately have "assemble_loop q vs' ?h =
      (None, ?h[q := PList ((acc @ [?x]) @ map (\<lambda>t. PStr (assemble_token t)) ts)])"
    by (rule Cons.IH)
  then show ?case using e a vs by simp
qed

lemma strs_of_PStr: "strs_of (map PStr ss) = Inr ss"
  by (induction ss) simp_all

lemma represents_extend:
  "represents h (length h) t v \<Longrightarrow> represents (h @ obs) (length h) t v"
  by (cases t) (auto simp: nth_append split: pyval.splits pyobj.splits)

lemma assemble_heap_refines:
  assumes "a < length h" "h ! a = PList vs" "list_all2 (represents h (length h)) ts vs"
  shows "fst (assemble_heap h a) = Inr (assemble ts)"
proof -
  let ?h1 = "h @ [PList []]"
  have "list_all2 (represents ?h1 (length h)) ts vs"
    using assms(3) by (auto intro: list_all2_mono represents_extend)
  then have "assemble_loop (length h) vs ?h1 =
      (None, ?h1[length h := PList ([] @ map (\<lambda>t. PStr (assemble_token t)) ts)])"
    by (rule assemble_loop_represents) simp_all
  then show ?thesis
    using assms(1,2) strs_of_PStr[of "map assemble_token ts"]
    by (simp add: assemble_heap_def alloc_def assemble_def comp_def)
qed

end
